theory Spec2Isabelle
  imports Main "HOL-Library.Word"
begin

section \<open>The hinted-handoff service of services/hh/service.go\<close>

text \<open>
  The theory embeds \<^verbatim>\<open>services/hh/service.go\<close>: the constructor \<^verbatim>\<open>NewService\<close> and
  the methods \<^verbatim>\<open>Open\<close>, \<^verbatim>\<open>Close\<close>, \<^verbatim>\<open>WriteShard\<close>, \<^verbatim>\<open>pathforNode\<close> and the body that
  \<^verbatim>\<open>purgeInactiveProcessors\<close> runs at every tick. Every method body runs under the
  service mutex, so a call is one step on the service state. What the file calls but does
  not define (the operating system, the clock, the metastore and the methods of
  \<^verbatim>\<open>NodeProcessor\<close>) is a parameter: the record \<open>Env\<close> gives the result of each such
  call. The purge tasks run beside the calls: a tick is a step of its own, and whether
  the tasks end while \<^verbatim>\<open>Close\<close> waits for them is left to the scheduler, hence a
  parameter as well. Log lines are not part of the state.
\<close>

subsection \<open>Values\<close>

type_synonym uint64 = "64 word"

text \<open>\<^verbatim>\<open>time.Duration\<close> is an \<^verbatim>\<open>int64\<close> of nanoseconds, read with \<open>sint\<close>; an instant
  \<^verbatim>\<open>time.Time\<close> is its number of nanoseconds on the time line.\<close>

type_synonym Duration = "64 word"
type_synonym Time = int

datatype Point = Point string

datatype error =
    ErrHintedHandoffDisabled
  | Errorf string error
  | ExternalError string

text \<open>A call returns (an error or \<^verbatim>\<open>nil\<close>), panics, or never returns.\<close>

datatype panic = NilMapAssignment | NilDereference

datatype outcome = Returned "error option" | Panicked panic | Blocked

subsection \<open>strconv.ParseUint(name, 10, 64) and fmt.Sprintf("%d", id)\<close>

definition digit_val :: "char \<Rightarrow> uint64 option" where
  "digit_val d =
     (if (48::nat) \<le> of_char d \<and> of_char d \<le> (57::nat)
      then Some (of_nat (of_char d - 48)) else None)"

definition cutoff64 :: uint64 where
  "cutoff64 = 1844674407370955162"

text \<open>The loop of \<^verbatim>\<open>ParseUint\<close> in base 10: a byte that is no digit is a syntax error, a
  value beyond \<open>2^64 - 1\<close> a range error; both are \<open>None\<close>.\<close>

fun ParseUint_loop :: "uint64 \<Rightarrow> string \<Rightarrow> uint64 option" where
  "ParseUint_loop n [] = Some n"
| "ParseUint_loop n (d # s) =
     (case digit_val d of
        None \<Rightarrow> None
      | Some v \<Rightarrow>
          if cutoff64 \<le> n then None
          else if n * 10 + v < n * 10 then None
          else ParseUint_loop (n * 10 + v) s)"

definition ParseUint :: "string \<Rightarrow> uint64 option" where
  "ParseUint s = (if s = [] then None else ParseUint_loop 0 s)"

definition digit_char :: "nat \<Rightarrow> char" where
  "digit_char n = ''0123456789'' ! n"

function FormatUint :: "nat \<Rightarrow> string" where
  "FormatUint n =
     (if n < 10 then [digit_char n] else FormatUint (n div 10) @ [digit_char (n mod 10)])"
  by pat_completeness auto
termination
  by (relation "measure id") auto

declare FormatUint.simps [simp del]

definition Sprintf_d :: "uint64 \<Rightarrow> string" where
  "Sprintf_d nodeID = FormatUint (unat nodeID)"

subsection \<open>filepath.Join on a slash-separated path\<close>

fun split_sep :: "string \<Rightarrow> string list" where
  "split_sep [] = [[]]"
| "split_sep (c # cs) =
     (if c = CHR ''/'' then [] # split_sep cs
      else (case split_sep cs of [] \<Rightarrow> [[c]] | x # xs \<Rightarrow> (c # x) # xs))"

fun join_sep :: "string list \<Rightarrow> string" where
  "join_sep [] = []"
| "join_sep [x] = x"
| "join_sep (x # y # ys) = x @ ''/'' @ join_sep (y # ys)"

text \<open>\<^verbatim>\<open>filepath.Clean\<close>, element by element: empty elements and \<^verbatim>\<open>.\<close> are dropped, an inner
  \<^verbatim>\<open>..\<close> removes the element before it, a \<^verbatim>\<open>..\<close> at the start of a rooted path is
  dropped and kept at the start of a relative one.\<close>

definition Clean_step :: "bool \<Rightarrow> string list \<Rightarrow> string \<Rightarrow> string list" where
  "Clean_step rooted out c =
     (if c = [] \<or> c = ''.'' then out
      else if c = ''..'' then
        (if out \<noteq> [] \<and> last out \<noteq> ''..'' then butlast out
         else if rooted then out
         else out @ [''..''])
      else out @ [c])"

definition is_rooted :: "string \<Rightarrow> bool" where
  "is_rooted path = (case path of [] \<Rightarrow> False | c # cs \<Rightarrow> c = CHR ''/'')"

definition Clean :: "string \<Rightarrow> string" where
  "Clean path =
     (let out = foldl (Clean_step (is_rooted path)) [] (split_sep path);
          r = (if is_rooted path then ''/'' else []) @ join_sep out
      in if r = [] then ''.'' else r)"

definition Join :: "string list \<Rightarrow> string" where
  "Join elem =
     (case dropWhile (\<lambda>e. e = []) elem of
        [] \<Rightarrow> []
      | e # es \<Rightarrow> Clean (join_sep (e # es)))"

text \<open>An element that \<^verbatim>\<open>Clean\<close> keeps.\<close>

definition elem_ok :: "string \<Rightarrow> bool" where
  "elem_ok x = (x \<noteq> [] \<and> x \<noteq> ''.'' \<and> CHR ''/'' \<notin> set x)"

text \<open>What \<^verbatim>\<open>Join\<close> puts in front of a last element that is a plain name: nothing for
  the directories \<^verbatim>\<open>""\<close> and \<^verbatim>\<open>.\<close>, the cleaned directory and a slash otherwise.\<close>

definition dir_prefix :: "string \<Rightarrow> string" where
  "dir_prefix d =
     (if d = [] \<or> Clean d = ''.'' then []
      else if Clean d = ''/'' then ''/''
      else Clean d @ ''/'')"

text \<open>The rendering that section 6 of the specification words: decimal, padded with
  zeros on the left to the width \<open>w\<close>.\<close>

definition zero_padded :: "nat \<Rightarrow> nat \<Rightarrow> string" where
  "zero_padded w n = replicate (w - length (FormatUint n)) (CHR ''0'') @ FormatUint n"

subsection \<open>Configuration, node processors and the environment\<close>

text \<open>The fields of \<^verbatim>\<open>Config\<close> that service.go reads.\<close>

record Config =
  Enabled :: bool
  Dir :: string
  MaxAge :: Duration
  PurgeInterval :: Duration

text \<open>
  \<^verbatim>\<open>NodeProcessor\<close> is declared outside service.go. The model keeps what the service
  gives it (node ID and directory) and the method calls the service has made on it, in
  order; the service holds processors by pointer, so a call on a processor found in the
  map shows in the map.
\<close>

datatype call = COpen | CClose | CPurge | CWriteShard uint64 "Point list"

record NodeProcessor =
  nodeID :: uint64
  dir :: string
  calls :: "call list"

definition NewNodeProcessor :: "uint64 \<Rightarrow> string \<Rightarrow> NodeProcessor" where
  "NewNodeProcessor n d = \<lparr>nodeID = n, dir = d, calls = []\<rparr>"

definition invoke :: "call \<Rightarrow> NodeProcessor \<Rightarrow> NodeProcessor" where
  "invoke c p = p\<lparr>calls := calls p @ [c]\<rparr>"

record NodeInfo =
  ID :: uint64
  Host :: string

text \<open>
  The environment: the result of every call that leaves service.go. A method of a
  processor returns an error or \<^verbatim>\<open>nil\<close>, depending on the processor it is called on;
  \<open>np_Open_nil\<close> is what \<^verbatim>\<open>Open\<close> does on a nil receiver. \<open>meta_Node\<close> is
  \<^verbatim>\<open>metastore.Node\<close> (\<open>Inr None\<close>: no such node and no error), \<open>Now k\<close> the reading of
  \<^verbatim>\<open>time.Now()\<close> while the purge loop looks at key \<open>k\<close>. \<open>purge_exits\<close> says whether,
  while \<^verbatim>\<open>Close\<close> holds the mutex and waits, every purge task takes the case of the
  closed channel and ends. It does not when a task has taken a tick and waits for the
  mutex, or selects on a channel that a later \<^verbatim>\<open>Open\<close> has replaced.
\<close>

record Env =
  os_MkdirAll :: "string \<Rightarrow> error option"
  os_ReadDir :: "string \<Rightarrow> error option"
  np_Open :: "NodeProcessor \<Rightarrow> error option"
  np_Open_nil :: outcome
  np_Close :: "NodeProcessor \<Rightarrow> error option"
  np_Purge :: "NodeProcessor \<Rightarrow> error option"
  np_WriteShard :: "NodeProcessor \<Rightarrow> uint64 \<Rightarrow> Point list \<Rightarrow> error option"
  np_LastModified :: "NodeProcessor \<Rightarrow> error + Time"
  meta_Node :: "uint64 \<Rightarrow> error + NodeInfo option"
  Now :: "uint64 \<Rightarrow> Time"
  purge_exits :: bool

text \<open>The disk, as far as the service reads it: the names in each directory, in the
  order \<^verbatim>\<open>ioutil.ReadDir\<close> lists them.\<close>

type_synonym FS = "string \<rightharpoonup> string list"

definition MkdirAll :: "Env \<Rightarrow> FS \<Rightarrow> string \<Rightarrow> error option \<times> FS" where
  "MkdirAll env fs d =
     (case os_MkdirAll env d of
        Some err \<Rightarrow> (Some err, fs)
      | None \<Rightarrow> (None, (case fs d of None \<Rightarrow> fs(d \<mapsto> []) | Some names \<Rightarrow> fs)))"

definition ReadDir :: "Env \<Rightarrow> FS \<Rightarrow> string \<Rightarrow> error + string list" where
  "ReadDir env fs d =
     (case os_ReadDir env d of
        Some err \<Rightarrow> Inl err
      | None \<Rightarrow>
          (case fs d of
             None \<Rightarrow> Inl (ExternalError ''no such file or directory'')
           | Some names \<Rightarrow> Inr names))"

subsection \<open>The service\<close>

text \<open>
  \<open>processors = None\<close> is the nil map: reading it finds nothing, ranging over it visits
  nothing, assigning to it panics. \<open>closing\<close> says that the channel is not nil, \<open>wg\<close>
  is the counter of the wait group, the number of purge tasks running. \<open>statMap\<close> holds
  the \<^verbatim>\<open>int64\<close> counters of the \<^verbatim>\<open>expvar\<close> map.
\<close>

record Service =
  cfg :: Config
  processors :: "(uint64 \<rightharpoonup> NodeProcessor) option"
  statMap :: "string \<rightharpoonup> 64 word"
  closing :: bool
  wg :: nat

definition writeShardReq :: string where
  "writeShardReq = ''write_shard_req''"

definition writeShardReqPoints :: string where
  "writeShardReqPoints = ''write_shard_req_points''"

text \<open>\<^verbatim>\<open>expvar.Map.Add\<close>: a missing counter starts at 0.\<close>

definition statMap_Add :: "(string \<rightharpoonup> 64 word) \<Rightarrow> string \<Rightarrow> 64 word \<Rightarrow> (string \<rightharpoonup> 64 word)" where
  "statMap_Add m key delta = m(key \<mapsto> (case m key of None \<Rightarrow> 0 | Some v \<Rightarrow> v) + delta)"

definition stat :: "Service \<Rightarrow> string \<Rightarrow> 64 word" where
  "stat s key = (case statMap s key of None \<Rightarrow> 0 | Some v \<Rightarrow> v)"

text \<open>\<^verbatim>\<open>NewService\<close>: \<open>stats\<close> is the map that \<^verbatim>\<open>influxdb.NewStatistics\<close> returns. The
  composite literal sets neither \<^verbatim>\<open>processors\<close> nor \<^verbatim>\<open>closing\<close>.\<close>

definition NewService :: "Config \<Rightarrow> (string \<rightharpoonup> 64 word) \<Rightarrow> Service" where
  "NewService c stats =
     \<lparr>cfg = c, processors = None, statMap = stats, closing = False, wg = 0\<rparr>"

definition pathforNode :: "Service \<Rightarrow> uint64 \<Rightarrow> string" where
  "pathforNode s n = Join [Dir (cfg s), Sprintf_d n]"

definition lookup :: "Service \<Rightarrow> uint64 \<Rightarrow> NodeProcessor option" where
  "lookup s k = (case processors s of None \<Rightarrow> None | Some m \<Rightarrow> m k)"

definition entries :: "Service \<Rightarrow> uint64 set" where
  "entries s = (case processors s of None \<Rightarrow> {} | Some m \<Rightarrow> dom m)"

subsection \<open>Open\<close>

text \<open>The loop over the directory listing. A processor whose \<^verbatim>\<open>Open\<close> fails is dropped
  and the error returned.\<close>

fun Open_loop :: "Env \<Rightarrow> Service \<Rightarrow> string list \<Rightarrow> outcome \<times> Service" where
  "Open_loop env s [] = (Returned None, s)"
| "Open_loop env s (name # files) =
     (case ParseUint name of
        None \<Rightarrow> Open_loop env s files
      | Some n \<Rightarrow>
          (case np_Open env (NewNodeProcessor n (pathforNode s n)) of
             Some err \<Rightarrow> (Returned (Some err), s)
           | None \<Rightarrow>
               (case processors s of
                  None \<Rightarrow> (Panicked NilMapAssignment, s)
                | Some m \<Rightarrow>
                    Open_loop env
                      (s\<lparr>processors :=
                           Some (m(n \<mapsto> invoke COpen (NewNodeProcessor n (pathforNode s n))))\<rparr>)
                      files)))"

definition Open :: "Env \<Rightarrow> Service \<Rightarrow> FS \<Rightarrow> outcome \<times> Service \<times> FS" where
  "Open env s fs =
     (if \<not> Enabled (cfg s) then (Returned None, s, fs)
      else
        (case MkdirAll env fs (Dir (cfg s)) of
           (Some err, fs1) \<Rightarrow>
             (Returned (Some (Errorf ''mkdir all: '' err)), s\<lparr>closing := True\<rparr>, fs1)
         | (None, fs1) \<Rightarrow>
             (case ReadDir env fs1 (Dir (cfg s)) of
                Inl err \<Rightarrow> (Returned (Some err), s\<lparr>closing := True\<rparr>, fs1)
              | Inr files \<Rightarrow>
                  (case Open_loop env (s\<lparr>closing := True\<rparr>) files of
                     (Returned None, s2) \<Rightarrow> (Returned None, s2\<lparr>wg := wg s2 + 1\<rparr>, fs1)
                   | (r, s2) \<Rightarrow> (r, s2, fs1)))))"

subsection \<open>Close\<close>

text \<open>The range over the map visits its keys in an order the language does not fix:
  \<open>order\<close> is the order of one run. The first error ends the call.\<close>

fun Close_loop ::
  "Env \<Rightarrow> (uint64 \<rightharpoonup> NodeProcessor) \<Rightarrow> uint64 list \<Rightarrow> error option \<times> (uint64 \<rightharpoonup> NodeProcessor)" where
  "Close_loop env m [] = (None, m)"
| "Close_loop env m (k # ks) =
     (case m k of
        None \<Rightarrow> Close_loop env m ks
      | Some p \<Rightarrow>
          (case np_Close env p of
             Some err \<Rightarrow> (Some err, m(k \<mapsto> invoke CClose p))
           | None \<Rightarrow> Close_loop env (m(k \<mapsto> invoke CClose p)) ks))"

definition range_order :: "(uint64 \<rightharpoonup> NodeProcessor) option \<Rightarrow> uint64 list \<Rightarrow> bool" where
  "range_order ps order =
     (distinct order \<and> set order = (case ps of None \<Rightarrow> {} | Some m \<Rightarrow> dom m))"

text \<open>
  After the loop \<^verbatim>\<open>Close\<close> closes the channel, if there is one, and waits for the wait
  group with the mutex held. With no task counted the wait returns at once. With tasks
  counted it returns when they have all ended, which needs a channel to close and every
  task to take that case (\<open>purge_exits\<close>); otherwise \<^verbatim>\<open>Close\<close> never returns.
\<close>

definition Close_finish :: "Env \<Rightarrow> Service \<Rightarrow> outcome \<times> Service" where
  "Close_finish env s =
     (if closing s then
        (if wg s = 0 \<or> purge_exits env then (Returned None, s\<lparr>closing := False, wg := 0\<rparr>)
         else (Blocked, s))
      else if 0 < wg s then (Blocked, s)
      else (Returned None, s\<lparr>closing := False\<rparr>))"

definition Close :: "Env \<Rightarrow> uint64 list \<Rightarrow> Service \<Rightarrow> outcome \<times> Service" where
  "Close env order s =
     (case processors s of
        None \<Rightarrow> Close_finish env s
      | Some m \<Rightarrow>
          (case Close_loop env m order of
             (Some err, m') \<Rightarrow> (Returned (Some err), s\<lparr>processors := Some m'\<rparr>)
           | (None, m') \<Rightarrow> Close_finish env (s\<lparr>processors := Some m'\<rparr>)))"

text \<open>For the statements about \<^verbatim>\<open>Close\<close>: the map after \<^verbatim>\<open>Close\<close> was called on the
  processors at the keys \<open>K\<close>, and that \<^verbatim>\<open>Close\<close> returns nil on every processor at the
  keys \<open>ks\<close>.\<close>

definition mark_closed :: "(uint64 \<rightharpoonup> NodeProcessor) \<Rightarrow> uint64 set \<Rightarrow> (uint64 \<rightharpoonup> NodeProcessor)" where
  "mark_closed m K = (\<lambda>k. if k \<in> K then map_option (invoke CClose) (m k) else m k)"

definition closes_ok :: "Env \<Rightarrow> (uint64 \<rightharpoonup> NodeProcessor) \<Rightarrow> uint64 list \<Rightarrow> bool" where
  "closes_ok env m ks = (\<forall>k \<in> set ks. case m k of None \<Rightarrow> True | Some p \<Rightarrow> np_Close env p = None)"

text \<open>The wait of \<^verbatim>\<open>Close\<close> ends: no purge task is counted, or there is a channel to
  close and every task takes its case.\<close>

definition wait_ends :: "Env \<Rightarrow> Service \<Rightarrow> bool" where
  "wait_ends env s = (wg s = 0 \<or> (closing s \<and> purge_exits env))"

subsection \<open>WriteShard\<close>

text \<open>The last statement: the write on the processor, which is the one in the map.\<close>

definition delegate ::
  "Env \<Rightarrow> Service \<Rightarrow> uint64 \<Rightarrow> NodeProcessor \<Rightarrow> uint64 \<Rightarrow> Point list \<Rightarrow> outcome \<times> Service" where
  "delegate env s ownerID p shardID points =
     (Returned (np_WriteShard env p shardID points),
      (case processors s of
         None \<Rightarrow> s
       | Some m \<Rightarrow> s\<lparr>processors := Some (m(ownerID \<mapsto> invoke (CWriteShard shardID points) p))\<rparr>))"

text \<open>
  The second lookup is the one under the write lock. When it finds nothing the variable
  \<^verbatim>\<open>processor\<close> is nil, and the source calls \<^verbatim>\<open>processor.Open()\<close>, not \<^verbatim>\<open>p.Open()\<close>:
  the new processor \<open>p\<close> goes into the map without a call of its \<^verbatim>\<open>Open\<close>.
\<close>

definition WriteShard ::
  "Env \<Rightarrow> Service \<Rightarrow> uint64 \<Rightarrow> uint64 \<Rightarrow> Point list \<Rightarrow> outcome \<times> Service" where
  "WriteShard env s shardID ownerID points =
     (if \<not> Enabled (cfg s) then (Returned (Some ErrHintedHandoffDisabled), s)
      else
        let s1 = s\<lparr>statMap :=
                   statMap_Add (statMap_Add (statMap s) writeShardReq 1)
                     writeShardReqPoints (of_nat (length points))\<rparr>
        in
          (case lookup s1 ownerID of
             Some processor \<Rightarrow> delegate env s1 ownerID processor shardID points
           | None \<Rightarrow>
               (case lookup s1 ownerID of
                  Some processor \<Rightarrow> delegate env s1 ownerID processor shardID points
                | None \<Rightarrow>
                    (case np_Open_nil env of
                       Returned None \<Rightarrow>
                         (case processors s1 of
                            None \<Rightarrow> (Panicked NilMapAssignment, s1)
                          | Some m \<Rightarrow>
                              delegate env
                                (s1\<lparr>processors :=
                                      Some (m(ownerID \<mapsto>
                                        NewNodeProcessor ownerID (pathforNode s1 ownerID)))\<rparr>)
                                ownerID (NewNodeProcessor ownerID (pathforNode s1 ownerID))
                                shardID points)
                     | r \<Rightarrow> (r, s1)))))"

subsection \<open>One tick of purgeInactiveProcessors\<close>

definition Time_Add :: "Time \<Rightarrow> Duration \<Rightarrow> Time" where
  "Time_Add t d = t + sint d"

definition Before :: "Time \<Rightarrow> Time \<Rightarrow> bool" where
  "Before t u = (t < u)"

text \<open>The body of the range loop for key \<open>k\<close>: every \<^verbatim>\<open>continue\<close> leaves the map as it
  is, but for the calls already made on the processor.\<close>

definition purge_body ::
  "Env \<Rightarrow> Config \<Rightarrow> (uint64 \<rightharpoonup> NodeProcessor) \<Rightarrow> uint64 \<Rightarrow> (uint64 \<rightharpoonup> NodeProcessor)" where
  "purge_body env c m k =
     (case m k of
        None \<Rightarrow> m
      | Some v \<Rightarrow>
          (case np_LastModified env v of
             Inl err \<Rightarrow> m
           | Inr lm \<Rightarrow>
               (case meta_Node env k of
                  Inl err \<Rightarrow> m
                | Inr (Some ni) \<Rightarrow> m
                | Inr None \<Rightarrow>
                    if \<not> Before lm (Time_Add (Now env k) (- MaxAge c)) then m
                    else
                      (case np_Close env v of
                         Some err \<Rightarrow> m(k \<mapsto> invoke CClose v)
                       | None \<Rightarrow>
                           (case np_Purge env (invoke CClose v) of
                              Some err \<Rightarrow> m(k \<mapsto> invoke CPurge (invoke CClose v))
                            | None \<Rightarrow> m(k := None))))))"

definition purge_tick :: "Env \<Rightarrow> uint64 list \<Rightarrow> Service \<Rightarrow> Service" where
  "purge_tick env order s =
     (case processors s of
        None \<Rightarrow> s
      | Some m \<Rightarrow> s\<lparr>processors := Some (foldl (purge_body env (cfg s)) m order)\<rparr>)"

subsection \<open>Histories of calls\<close>

datatype request =
    ReqOpen
  | ReqClose "uint64 list"
  | ReqWriteShard uint64 uint64 "Point list"

fun serve :: "Env \<Rightarrow> request \<Rightarrow> Service \<times> FS \<Rightarrow> outcome \<times> Service \<times> FS" where
  "serve env ReqOpen (s, fs) = Open env s fs"
| "serve env (ReqClose order) (s, fs) = (case Close env order s of (r, s') \<Rightarrow> (r, s', fs))"
| "serve env (ReqWriteShard shardID ownerID points) (s, fs) =
     (case WriteShard env s shardID ownerID points of (r, s') \<Rightarrow> (r, s', fs))"

text \<open>The answers of a history; it ends at the first call that does not return.\<close>

fun run :: "Env \<Rightarrow> Service \<times> FS \<Rightarrow> request list \<Rightarrow> outcome list" where
  "run env st [] = []"
| "run env st (r # rs) =
     (case serve env r st of
        (Returned e, st') \<Rightarrow> Returned e # run env st' rs
      | (x, st') \<Rightarrow> [x])"

text \<open>What section 6 of the specification promises of a disabled service.\<close>

fun disabled_answer :: "request \<Rightarrow> outcome" where
  "disabled_answer ReqOpen = Returned None"
| "disabled_answer (ReqClose order) = Returned None"
| "disabled_answer (ReqWriteShard shardID ownerID points) = Returned (Some ErrHintedHandoffDisabled)"

subsection \<open>Fixtures\<close>

definition cfg_on :: Config where
  "cfg_on = \<lparr>Enabled = True, Dir = ''/var/hh'', MaxAge = 3600000000000,
             PurgeInterval = 60000000000\<rparr>"

definition cfg_off :: Config where
  "cfg_off = \<lparr>Enabled = False, Dir = ''/var/hh'', MaxAge = 3600000000000,
              PurgeInterval = 60000000000\<rparr>"

text \<open>An environment in which every call succeeds, no node is a member any more, every
  queue was last written at instant 0 and the clock stands two hours later. A method
  called on a nil processor dereferences it. The purge tasks end when the channel is
  closed.\<close>

definition env_ok :: Env where
  "env_ok =
     \<lparr>os_MkdirAll = (\<lambda>d. None), os_ReadDir = (\<lambda>d. None),
      np_Open = (\<lambda>p. None), np_Open_nil = Panicked NilDereference,
      np_Close = (\<lambda>p. None), np_Purge = (\<lambda>p. None),
      np_WriteShard = (\<lambda>p shardID points. None),
      np_LastModified = (\<lambda>p. Inr 0),
      meta_Node = (\<lambda>k. Inr None),
      Now = (\<lambda>k. 7200000000000),
      purge_exits = True\<rparr>"

text \<open>As \<open>env_ok\<close>, but the processor of node 1 cannot be closed, and \<^verbatim>\<open>Open\<close> on a nil
  processor returns nil.\<close>

definition env_flaky :: Env where
  "env_flaky =
     \<lparr>os_MkdirAll = (\<lambda>d. None), os_ReadDir = (\<lambda>d. None),
      np_Open = (\<lambda>p. None), np_Open_nil = Returned None,
      np_Close = (\<lambda>p. if nodeID p = 1 then Some (ExternalError ''busy'') else None),
      np_Purge = (\<lambda>p. None),
      np_WriteShard = (\<lambda>p shardID points. None),
      np_LastModified = (\<lambda>p. Inr 0),
      meta_Node = (\<lambda>k. Inr None),
      Now = (\<lambda>k. 7200000000000),
      purge_exits = True\<rparr>"

text \<open>As \<open>env_ok\<close>, but a purge task has taken a tick when \<^verbatim>\<open>Close\<close> is called.\<close>

definition env_tick :: Env where
  "env_tick =
     \<lparr>os_MkdirAll = (\<lambda>d. None), os_ReadDir = (\<lambda>d. None),
      np_Open = (\<lambda>p. None), np_Open_nil = Panicked NilDereference,
      np_Close = (\<lambda>p. None), np_Purge = (\<lambda>p. None),
      np_WriteShard = (\<lambda>p shardID points. None),
      np_LastModified = (\<lambda>p. Inr 0),
      meta_Node = (\<lambda>k. Inr None),
      Now = (\<lambda>k. 7200000000000),
      purge_exits = False\<rparr>"

text \<open>A running service with processors for the nodes 1 and 2.\<close>

definition svc_two :: Service where
  "svc_two =
     \<lparr>cfg = cfg_on,
      processors = Some [1 \<mapsto> NewNodeProcessor 1 ''/var/hh/1'',
                         2 \<mapsto> NewNodeProcessor 2 ''/var/hh/2''],
      statMap = Map.empty, closing = True, wg = 1\<rparr>"

section \<open>Properties\<close>

subsection \<open>A disabled service\<close>

text \<open>
  C8. \<^verbatim>\<open>Open\<close> on a service whose configuration has \<^verbatim>\<open>Enabled = false\<close> returns nil
  and changes nothing: the service (processors, channel, wait group) and the disk are
  what they were, so no root directory is made, no processor built and no purge task
  started.
\<close>

theorem Open_disabled_no_effect:
  "\<not> Enabled (cfg s) \<Longrightarrow> Open env s fs = (Returned None, s, fs)"
  by (simp add: Open_def)

theorem Open_disabled_no_effect_witness:
  "\<not> Enabled (cfg (NewService cfg_off Map.empty)) \<and>
   Open env_ok (NewService cfg_off Map.empty) Map.empty
     = (Returned None, NewService cfg_off Map.empty, Map.empty)"
  using Open_disabled_no_effect [of "NewService cfg_off Map.empty" env_ok Map.empty]
  by (simp add: NewService_def cfg_off_def)

lemma Close_fresh:
  "Close env order (NewService c stats) = (Returned None, NewService c stats)"
  by (simp add: Close_def Close_finish_def NewService_def)

lemma WriteShard_disabled:
  "\<not> Enabled (cfg s) \<Longrightarrow>
   WriteShard env s shardID ownerID points = (Returned (Some ErrHintedHandoffDisabled), s)"
  by (simp add: WriteShard_def)

lemma serve_disabled:
  assumes "\<not> Enabled c"
  shows "serve env r (NewService c stats, fs) = (disabled_answer r, NewService c stats, fs)"
proof (cases r)
  case ReqOpen
  from assms have "\<not> Enabled (cfg (NewService c stats))" by (simp add: NewService_def)
  then show ?thesis using ReqOpen by (simp add: Open_def)
next
  case (ReqClose order)
  then show ?thesis by (simp add: Close_fresh)
next
  case (ReqWriteShard shardID ownerID points)
  from assms have "\<not> Enabled (cfg (NewService c stats))" by (simp add: NewService_def)
  then show ?thesis using ReqWriteShard by (simp add: WriteShard_disabled)
qed

lemma run_disabled:
  assumes "\<not> Enabled c"
  shows "run env (NewService c stats, fs) reqs = map disabled_answer reqs"
proof (induction reqs)
  case Nil
  show ?case by simp
next
  case (Cons r rs)
  have "serve env r (NewService c stats, fs) = (disabled_answer r, NewService c stats, fs)"
    by (rule serve_disabled [OF assms])
  moreover obtain e where "disabled_answer r = Returned e"
    by (cases r) simp_all
  ultimately show ?case using Cons.IH by simp
qed

text \<open>
  C5. On a service whose configuration has \<^verbatim>\<open>Enabled = false\<close>, \<^verbatim>\<open>WriteShard\<close> fails with
  \<^verbatim>\<open>ErrHintedHandoffDisabled\<close> and \<^verbatim>\<open>Open\<close> returns nil, in whatever state the service
  is; and in every history of calls on the service that \<^verbatim>\<open>NewService\<close> built, every
  \<^verbatim>\<open>WriteShard\<close> fails with that error and every \<^verbatim>\<open>Open\<close> and \<^verbatim>\<open>Close\<close> returns nil.
\<close>

theorem disabled_service_answers:
  assumes "\<not> Enabled (cfg s)" and "\<not> Enabled c"
  shows "fst (WriteShard env s shardID ownerID points) = Returned (Some ErrHintedHandoffDisabled)
       \<and> fst (Open env s fs) = Returned None
       \<and> run env (NewService c stats, fs) reqs = map disabled_answer reqs"
  using assms by (simp add: WriteShard_disabled Open_def run_disabled)

theorem disabled_service_answers_witness:
  "\<not> Enabled (cfg (NewService cfg_off Map.empty)) \<and> \<not> Enabled cfg_off \<and>
   fst (WriteShard env_ok (NewService cfg_off Map.empty) 7 42 [Point ''p1'', Point ''p2''])
     = Returned (Some ErrHintedHandoffDisabled) \<and>
   fst (Open env_ok (NewService cfg_off Map.empty) Map.empty) = Returned None \<and>
   run env_ok (NewService cfg_off Map.empty, Map.empty)
     [ReqOpen, ReqWriteShard 7 42 [Point ''p1'', Point ''p2''], ReqClose [], ReqClose []]
     = [Returned None, Returned (Some ErrHintedHandoffDisabled), Returned None, Returned None]"
  using disabled_service_answers [of "NewService cfg_off Map.empty" cfg_off env_ok 7 42
      "[Point ''p1'', Point ''p2'']" Map.empty Map.empty
      "[ReqOpen, ReqWriteShard 7 42 [Point ''p1'', Point ''p2''], ReqClose [], ReqClose []]"]
  by (simp add: NewService_def cfg_off_def)

subsection \<open>The request counters\<close>

lemma delegate_statMap: "statMap (snd (delegate env s ownerID p shardID points)) = statMap s"
  by (simp add: delegate_def split: option.splits)

lemma WriteShard_statMap:
  "Enabled (cfg s) \<Longrightarrow>
   statMap (snd (WriteShard env s shardID ownerID points))
     = statMap_Add (statMap_Add (statMap s) writeShardReq 1)
         writeShardReqPoints (of_nat (length points))"
  by (simp add: WriteShard_def Let_def delegate_statMap
      split: option.splits outcome.splits)

text \<open>
  C10. On an enabled service every call of \<^verbatim>\<open>WriteShard\<close>, whatever its outcome (nil, an
  error, a panic), leaves \<^verbatim>\<open>write_shard_req\<close> one higher and \<^verbatim>\<open>write_shard_req_points\<close>
  higher by the number of points (as \<^verbatim>\<open>int64\<close>); on a disabled service the counters are
  what they were.
\<close>

theorem WriteShard_counts_attempts:
  "(Enabled (cfg s) \<longrightarrow>
      stat (snd (WriteShard env s shardID ownerID points)) writeShardReq
        = stat s writeShardReq + 1 \<and>
      stat (snd (WriteShard env s shardID ownerID points)) writeShardReqPoints
        = stat s writeShardReqPoints + of_nat (length points)) \<and>
   (\<not> Enabled (cfg s) \<longrightarrow>
      statMap (snd (WriteShard env s shardID ownerID points)) = statMap s)"
proof (intro conjI impI)
  assume en: "Enabled (cfg s)"
  have ne: "writeShardReq \<noteq> writeShardReqPoints"
    by (simp add: writeShardReq_def writeShardReqPoints_def)
  show "stat (snd (WriteShard env s shardID ownerID points)) writeShardReq
        = stat s writeShardReq + 1"
    using ne by (simp add: stat_def WriteShard_statMap [OF en] statMap_Add_def)
  show "stat (snd (WriteShard env s shardID ownerID points)) writeShardReqPoints
        = stat s writeShardReqPoints + of_nat (length points)"
    using ne by (simp add: stat_def WriteShard_statMap [OF en] statMap_Add_def)
next
  assume "\<not> Enabled (cfg s)"
  then show "statMap (snd (WriteShard env s shardID ownerID points)) = statMap s"
    by (simp add: WriteShard_disabled)
qed

theorem WriteShard_counts_attempts_witness:
  "Enabled (cfg (NewService cfg_on Map.empty)) \<and>
   fst (WriteShard env_ok (NewService cfg_on Map.empty) 7 42 [Point ''p1'', Point ''p2''])
     = Panicked NilDereference \<and>
   stat (snd (WriteShard env_ok (NewService cfg_on Map.empty) 7 42 [Point ''p1'', Point ''p2'']))
     writeShardReq = 1 \<and>
   stat (snd (WriteShard env_ok (NewService cfg_on Map.empty) 7 42 [Point ''p1'', Point ''p2'']))
     writeShardReqPoints = 2 \<and>
   \<not> Enabled (cfg (NewService cfg_off Map.empty)) \<and>
   statMap (snd (WriteShard env_ok (NewService cfg_off Map.empty) 7 42 [Point ''p1'', Point ''p2'']))
     = Map.empty"
proof -
  have on: "Enabled (cfg (NewService cfg_on Map.empty))"
    by (simp add: NewService_def cfg_on_def)
  have off: "\<not> Enabled (cfg (NewService cfg_off Map.empty))"
    by (simp add: NewService_def cfg_off_def)
  have zero: "stat (NewService cfg_on Map.empty) key = 0" for key
    by (simp add: stat_def NewService_def)
  have out: "fst (WriteShard env_ok (NewService cfg_on Map.empty) 7 42 [Point ''p1'', Point ''p2''])
      = Panicked NilDereference"
    by (simp add: WriteShard_def Let_def lookup_def NewService_def cfg_on_def env_ok_def)
  have st: "statMap (NewService cfg_off Map.empty) = Map.empty"
    by (simp add: NewService_def)
  show ?thesis
    using on off out
      WriteShard_counts_attempts [of "NewService cfg_on Map.empty" env_ok 7 42
        "[Point ''p1'', Point ''p2'']"]
      WriteShard_counts_attempts [of "NewService cfg_off Map.empty" env_ok 7 42
        "[Point ''p1'', Point ''p2'']"]
    by (simp add: zero st)
qed

subsection \<open>Start on an empty root directory\<close>

lemma entries_update [simp]:
  "entries (s\<lparr>closing := b\<rparr>) = entries s" "entries (s\<lparr>wg := n\<rparr>) = entries s"
  by (simp_all add: entries_def)

text \<open>
  C7. \<^verbatim>\<open>Open\<close> on an enabled service with no processors, whose root directory is empty
  or missing (and then made by \<^verbatim>\<open>MkdirAll\<close>), the two calls of the operating system
  succeeding, returns nil; the processor map has no entries afterwards; the root
  directory exists and is empty, the channel is made and one purge task runs.
\<close>

theorem Open_empty_root:
  assumes "Enabled (cfg s)" and "entries s = {}"
    and "os_MkdirAll env (Dir (cfg s)) = None" and "os_ReadDir env (Dir (cfg s)) = None"
    and "fs (Dir (cfg s)) = None \<or> fs (Dir (cfg s)) = Some []"
  shows "Open env s fs
           = (Returned None, s\<lparr>closing := True, wg := wg s + 1\<rparr>, fs(Dir (cfg s) \<mapsto> []))
       \<and> entries (fst (snd (Open env s fs))) = {}"
proof -
  from assms(5) have mk: "MkdirAll env fs (Dir (cfg s)) = (None, fs(Dir (cfg s) \<mapsto> []))"
  proof
    assume "fs (Dir (cfg s)) = None"
    then show ?thesis using assms(3) by (simp add: MkdirAll_def)
  next
    assume e: "fs (Dir (cfg s)) = Some []"
    then have "fs(Dir (cfg s) \<mapsto> []) = fs" by (simp add: fun_upd_idem)
    then show ?thesis using assms(3) e by (simp add: MkdirAll_def)
  qed
  have rd: "ReadDir env (fs(Dir (cfg s) \<mapsto> [])) (Dir (cfg s)) = Inr []"
    using assms(4) by (simp add: ReadDir_def)
  have "Open env s fs
          = (Returned None, s\<lparr>closing := True, wg := wg s + 1\<rparr>, fs(Dir (cfg s) \<mapsto> []))"
    using assms(1) mk rd by (simp add: Open_def)
  then show ?thesis using assms(2) by simp
qed

theorem Open_empty_root_witness:
  "Enabled (cfg (NewService cfg_on Map.empty)) \<and> entries (NewService cfg_on Map.empty) = {} \<and>
   os_MkdirAll env_ok ''/var/hh'' = None \<and> os_ReadDir env_ok ''/var/hh'' = None \<and>
   fst (Open env_ok (NewService cfg_on Map.empty) Map.empty) = Returned None \<and>
   entries (fst (snd (Open env_ok (NewService cfg_on Map.empty) Map.empty))) = {} \<and>
   snd (snd (Open env_ok (NewService cfg_on Map.empty) Map.empty)) ''/var/hh'' = Some []"
proof -
  have d: "Dir (cfg (NewService cfg_on Map.empty)) = ''/var/hh''"
    by (simp add: NewService_def cfg_on_def)
  have h1: "Enabled (cfg (NewService cfg_on Map.empty))"
    by (simp add: NewService_def cfg_on_def)
  have h2: "entries (NewService cfg_on Map.empty) = {}"
    by (simp add: NewService_def entries_def)
  have h3: "os_MkdirAll env_ok (Dir (cfg (NewService cfg_on Map.empty))) = None"
    by (simp add: env_ok_def)
  have h4: "os_ReadDir env_ok (Dir (cfg (NewService cfg_on Map.empty))) = None"
    by (simp add: env_ok_def)
  have h5: "Map.empty (Dir (cfg (NewService cfg_on Map.empty))) = None
      \<or> Map.empty (Dir (cfg (NewService cfg_on Map.empty))) = Some []"
    by simp
  show ?thesis
    using Open_empty_root [OF h1 h2 h3 h4 h5] h1 h2 h3 h4 by (simp add: d)
qed

subsection \<open>The purge cycle\<close>

lemma sint_neg_le: "sint (- x) \<le> - sint (x :: 64 word)"
proof -
  have "sint x < 2 ^ 63" using sint_lt [of x] by simp
  then have "- (2 ^ 63) \<le> - sint x" by simp
  then have "signed_take_bit 63 (- sint x) \<le> - sint x"
    by (simp only: signed_take_bit_int_less_eq_self_iff)
  then show ?thesis by (simp add: sint_word_minus)
qed

lemma purge_body_other: "k' \<noteq> k \<Longrightarrow> purge_body env c m k k' = m k'"
  by (simp add: purge_body_def split: option.splits sum.splits)

lemma purge_body_cong: "m k = m' k \<Longrightarrow> purge_body env c m k k = purge_body env c m' k k"
  by (simp add: purge_body_def split: option.splits sum.splits)

lemma foldl_purge_body_notin:
  "k \<notin> set order \<Longrightarrow> foldl (purge_body env c) m order k = m k"
  by (induction order arbitrary: m) (auto simp: purge_body_other)

lemma foldl_purge_body_at:
  "distinct order \<Longrightarrow> k \<in> set order \<Longrightarrow>
   foldl (purge_body env c) m order k = purge_body env c m k k"
proof (induction order arbitrary: m)
  case Nil
  then show ?case by simp
next
  case (Cons x xs)
  show ?case
  proof (cases "k = x")
    case True
    with Cons.prems have "k \<notin> set xs" by simp
    then show ?thesis using True by (simp add: foldl_purge_body_notin)
  next
    case False
    with Cons.prems have "k \<in> set xs" "distinct xs" by simp_all
    then have "foldl (purge_body env c) (purge_body env c m x) xs k
        = purge_body env c (purge_body env c m x) k k"
      by (rule Cons.IH [rotated])
    also have "\<dots> = purge_body env c m k k"
      by (rule purge_body_cong) (simp add: purge_body_other False)
    finally show ?thesis by simp
  qed
qed

lemma purge_tick_lookup:
  assumes "processors s = Some m" and "range_order (processors s) order" and "m k = Some v"
  shows "lookup (purge_tick env order s) k = purge_body env (cfg s) [k \<mapsto> v] k k"
proof -
  from assms have "distinct order" "k \<in> set order"
    by (auto simp: range_order_def)
  then have "foldl (purge_body env (cfg s)) m order k = purge_body env (cfg s) m k k"
    by (rule foldl_purge_body_at)
  also have "\<dots> = purge_body env (cfg s) [k \<mapsto> v] k k"
    by (rule purge_body_cong) (simp add: assms(3))
  finally show ?thesis using assms(1) by (simp add: purge_tick_def lookup_def)
qed

lemma purge_body_changed:
  assumes "purge_body env c [k \<mapsto> v] k k \<noteq> Some v"
  shows "meta_Node env k = Inr None \<and>
    (\<exists>lm. np_LastModified env v = Inr lm \<and> Before lm (Time_Add (Now env k) (- MaxAge c)))"
  using assms by (auto simp: purge_body_def split: option.splits sum.splits if_splits)

text \<open>
  C2. In a purge cycle, a processor that is closed, purged or removed from the map (its
  entry is no longer what it was) had both: the metastore answered that the node is not
  found, without error, and its \<^verbatim>\<open>LastModified\<close> lay strictly before the clock reading of
  its check minus \<^verbatim>\<open>MaxAge\<close>. So a processor for which either fails keeps its entry as
  it was.
\<close>

theorem purge_only_departed_and_aged:
  assumes "processors s = Some m" and "range_order (processors s) order" and "m k = Some v"
    and "lookup (purge_tick env order s) k \<noteq> Some v"
  shows "meta_Node env k = Inr None \<and>
    (\<exists>lm. np_LastModified env v = Inr lm \<and>
       Before lm (Time_Add (Now env k) (- MaxAge (cfg s))) \<and>
       lm < Now env k - sint (MaxAge (cfg s)))"
proof -
  from assms have "purge_body env (cfg s) [k \<mapsto> v] k k \<noteq> Some v"
    by (simp add: purge_tick_lookup)
  then obtain lm where a: "meta_Node env k = Inr None" "np_LastModified env v = Inr lm"
      "Before lm (Time_Add (Now env k) (- MaxAge (cfg s)))"
    using purge_body_changed by blast
  from a(3) have "lm < Now env k + sint (- MaxAge (cfg s))"
    by (simp add: Before_def Time_Add_def)
  then have "lm < Now env k - sint (MaxAge (cfg s))"
    using sint_neg_le [of "MaxAge (cfg s)"] by linarith
  with a show ?thesis by simp
qed

lemma svc_two_order: "range_order (processors svc_two) [2, 1]"
  by (auto simp: range_order_def svc_two_def)

theorem purge_only_departed_and_aged_witness:
  "processors svc_two = Some [1 \<mapsto> NewNodeProcessor 1 ''/var/hh/1'',
                               2 \<mapsto> NewNodeProcessor 2 ''/var/hh/2''] \<and>
   range_order (processors svc_two) [2, 1] \<and>
   lookup (purge_tick env_ok [2, 1] svc_two) 2 = None \<and>
   meta_Node env_ok 2 = Inr None \<and>
   np_LastModified env_ok (NewNodeProcessor 2 ''/var/hh/2'') = Inr 0 \<and>
   (0::int) < Now env_ok 2 - sint (MaxAge (cfg svc_two))"
proof -
  have p: "processors svc_two = Some [1 \<mapsto> NewNodeProcessor 1 ''/var/hh/1'',
                               2 \<mapsto> NewNodeProcessor 2 ''/var/hh/2'']"
    by (simp add: svc_two_def)
  have v: "[1 \<mapsto> NewNodeProcessor 1 ''/var/hh/1'', 2 \<mapsto> NewNodeProcessor 2 ''/var/hh/2''] (2::uint64)
      = Some (NewNodeProcessor 2 ''/var/hh/2'')"
    by simp
  have gone: "lookup (purge_tick env_ok [2, 1] svc_two) 2 = None"
    by (simp add: purge_tick_def lookup_def svc_two_def purge_body_def env_ok_def cfg_on_def
        Before_def Time_Add_def invoke_def NewNodeProcessor_def)
  then have ch: "lookup (purge_tick env_ok [2, 1] svc_two) 2 \<noteq> Some (NewNodeProcessor 2 ''/var/hh/2'')"
    by simp
  have lm: "np_LastModified env_ok (NewNodeProcessor 2 ''/var/hh/2'') = Inr 0"
    by (simp add: env_ok_def)
  show ?thesis
    using purge_only_departed_and_aged [OF p svc_two_order v ch] p svc_two_order gone lm
    by auto
qed

lemma purge_tick_frame:
  "cfg (purge_tick env order s) = cfg s \<and> closing (purge_tick env order s) = closing s \<and>
   wg (purge_tick env order s) = wg s \<and> statMap (purge_tick env order s) = statMap s"
  by (simp add: purge_tick_def split: option.splits)

lemma purge_body_error_keeps:
  "(np_LastModified env v = Inl e \<longrightarrow> purge_body env c [k \<mapsto> v] k k = Some v) \<and>
   (meta_Node env k = Inl e \<longrightarrow> purge_body env c [k \<mapsto> v] k k = Some v) \<and>
   (np_Close env v = Some e \<longrightarrow> purge_body env c [k \<mapsto> v] k k \<in> {Some v, Some (invoke CClose v)}) \<and>
   (np_Purge env (invoke CClose v) = Some e \<longrightarrow>
      purge_body env c [k \<mapsto> v] k k \<in> {Some v, Some (invoke CClose v), Some (invoke CPurge (invoke CClose v))})"
  by (simp add: purge_body_def split: option.splits sum.splits)

lemma dom_purge_body: "dom (purge_body env c m k) \<subseteq> dom m"
  by (auto simp: purge_body_def split: option.splits sum.splits if_splits)

lemma dom_foldl_purge_body: "dom (foldl (purge_body env c) m order) \<subseteq> dom m"
proof (induction order arbitrary: m)
  case Nil
  show ?case by simp
next
  case (Cons x xs)
  have "dom (foldl (purge_body env c) (purge_body env c m x) xs) \<subseteq> dom (purge_body env c m x)"
    by (rule Cons.IH)
  also have "\<dots> \<subseteq> dom m" by (rule dom_purge_body)
  finally show ?case by simp
qed

lemma entries_purge_tick: "entries (purge_tick env order s) \<subseteq> entries s"
  using dom_foldl_purge_body [of env "cfg s"]
  by (simp add: purge_tick_def entries_def split: option.splits)

text \<open>
  C6. In a purge cycle every processor of the map meets the verdict it would meet were it
  the only one, whatever happened at the other keys. An error of \<^verbatim>\<open>LastModified\<close> or of
  the metastore leaves its entry as it was; a failing \<^verbatim>\<open>Close\<close> or \<^verbatim>\<open>Purge\<close> leaves the
  processor in the map (with the calls made on it). The cycle adds no entry and leaves
  the channel and the wait group alone: the purge task goes on.
\<close>

theorem purge_error_skips_one:
  assumes "processors s = Some m" and "range_order (processors s) order" and "m k = Some v"
  shows "lookup (purge_tick env order s) k = purge_body env (cfg s) [k \<mapsto> v] k k
    \<and> (np_LastModified env v = Inl e \<longrightarrow> lookup (purge_tick env order s) k = Some v)
    \<and> (meta_Node env k = Inl e \<longrightarrow> lookup (purge_tick env order s) k = Some v)
    \<and> (np_Close env v = Some e \<longrightarrow>
         lookup (purge_tick env order s) k \<in> {Some v, Some (invoke CClose v)})
    \<and> (np_Purge env (invoke CClose v) = Some e \<longrightarrow>
         lookup (purge_tick env order s) k
           \<in> {Some v, Some (invoke CClose v), Some (invoke CPurge (invoke CClose v))})
    \<and> entries (purge_tick env order s) \<subseteq> entries s
    \<and> wg (purge_tick env order s) = wg s \<and> closing (purge_tick env order s) = closing s"
proof -
  have l: "lookup (purge_tick env order s) k = purge_body env (cfg s) [k \<mapsto> v] k k"
    using assms by (rule purge_tick_lookup)
  show ?thesis
    unfolding l
    using purge_body_error_keeps [of env v e "cfg s" k] entries_purge_tick [of env order s]
      purge_tick_frame [of env order s]
    by simp
qed

lemma svc_two_order12: "range_order (processors svc_two) [1, 2]"
  by (auto simp: range_order_def svc_two_def)

theorem purge_error_skips_one_witness:
  "processors svc_two = Some [1 \<mapsto> NewNodeProcessor 1 ''/var/hh/1'',
                               2 \<mapsto> NewNodeProcessor 2 ''/var/hh/2''] \<and>
   range_order (processors svc_two) [1, 2] \<and>
   np_Close env_flaky (NewNodeProcessor 1 ''/var/hh/1'') = Some (ExternalError ''busy'') \<and>
   lookup (purge_tick env_flaky [1, 2] svc_two) 1
     = Some (invoke CClose (NewNodeProcessor 1 ''/var/hh/1'')) \<and>
   lookup (purge_tick env_flaky [1, 2] svc_two) 2 = None \<and>
   wg (purge_tick env_flaky [1, 2] svc_two) = 1"
proof -
  have p: "processors svc_two = Some [1 \<mapsto> NewNodeProcessor 1 ''/var/hh/1'',
                               2 \<mapsto> NewNodeProcessor 2 ''/var/hh/2'']"
    by (simp add: svc_two_def)
  have v: "[1 \<mapsto> NewNodeProcessor 1 ''/var/hh/1'', 2 \<mapsto> NewNodeProcessor 2 ''/var/hh/2''] (1::uint64)
      = Some (NewNodeProcessor 1 ''/var/hh/1'')"
    by simp
  have c: "np_Close env_flaky (NewNodeProcessor 1 ''/var/hh/1'') = Some (ExternalError ''busy'')"
    by (simp add: env_flaky_def NewNodeProcessor_def)
  have one: "lookup (purge_tick env_flaky [1, 2] svc_two) 1
      = Some (invoke CClose (NewNodeProcessor 1 ''/var/hh/1''))"
    by (simp add: purge_tick_def lookup_def svc_two_def purge_body_def env_flaky_def cfg_on_def
        Before_def Time_Add_def invoke_def NewNodeProcessor_def)
  have two: "lookup (purge_tick env_flaky [1, 2] svc_two) 2 = None"
    by (simp add: purge_tick_def lookup_def svc_two_def purge_body_def env_flaky_def cfg_on_def
        Before_def Time_Add_def invoke_def NewNodeProcessor_def)
  have w: "wg svc_two = 1" by (simp add: svc_two_def)
  show ?thesis
    using purge_error_skips_one [OF p svc_two_order12 v, of env_flaky "ExternalError ''busy''"]
      p svc_two_order12 c one two w
    by simp
qed

subsection \<open>Close\<close>

lemma closes_ok_Cons:
  "closes_ok env m (k # ks) \<longleftrightarrow>
     (case m k of None \<Rightarrow> True | Some p \<Rightarrow> np_Close env p = None) \<and> closes_ok env m ks"
  by (simp add: closes_ok_def)

lemma closes_ok_upd:
  "k \<notin> set ks \<Longrightarrow> closes_ok env (m(k \<mapsto> p)) ks = closes_ok env m ks"
  by (auto simp: closes_ok_def)

lemma mark_closed_step:
  "k \<notin> set ks \<Longrightarrow> m k = Some p \<Longrightarrow>
   mark_closed (m(k \<mapsto> invoke CClose p)) (set ks) = mark_closed m (insert k (set ks))"
  by (auto simp: mark_closed_def fun_eq_iff)

lemma mark_closed_absent:
  "m k = None \<Longrightarrow> mark_closed m (insert k K) = mark_closed m K"
  by (auto simp: mark_closed_def fun_eq_iff)

lemma Close_loop_all:
  "distinct ks \<Longrightarrow> closes_ok env m ks \<Longrightarrow>
   Close_loop env m ks = (None, mark_closed m (set ks))"
proof (induction ks arbitrary: m)
  case Nil
  show ?case by (simp add: mark_closed_def)
next
  case (Cons k ks)
  from Cons.prems have d: "distinct ks" "k \<notin> set ks" by simp_all
  show ?case
  proof (cases "m k")
    case None
    with Cons.prems have "closes_ok env m ks" by (simp add: closes_ok_Cons)
    with Cons.IH d have "Close_loop env m ks = (None, mark_closed m (set ks))" by simp
    then show ?thesis using None by (simp add: mark_closed_absent)
  next
    case (Some p)
    with Cons.prems have ok: "np_Close env p = None" "closes_ok env m ks"
      by (simp_all add: closes_ok_Cons)
    from ok(2) d(2) have "closes_ok env (m(k \<mapsto> invoke CClose p)) ks"
      by (simp add: closes_ok_upd)
    with Cons.IH d(1) have "Close_loop env (m(k \<mapsto> invoke CClose p)) ks
        = (None, mark_closed (m(k \<mapsto> invoke CClose p)) (set ks))" by simp
    then show ?thesis using Some ok(1) d(2) by (simp add: mark_closed_step)
  qed
qed

lemma Close_loop_first_error:
  "distinct (pre @ k # post) \<Longrightarrow> closes_ok env m pre \<Longrightarrow> m k = Some p \<Longrightarrow>
   np_Close env p = Some e \<Longrightarrow>
   Close_loop env m (pre @ k # post) = (Some e, mark_closed m (insert k (set pre)))"
proof (induction pre arbitrary: m)
  case Nil
  then have "m(k \<mapsto> invoke CClose p) = mark_closed m {k}"
    by (auto simp: mark_closed_def fun_eq_iff)
  with Nil show ?case by simp
next
  case (Cons j pre)
  from Cons.prems have d: "distinct (pre @ k # post)" "j \<notin> set pre" "j \<noteq> k" by auto
  show ?case
  proof (cases "m j")
    case None
    with Cons.prems have "closes_ok env m pre" by (simp add: closes_ok_Cons)
    then have "Close_loop env m (pre @ k # post) = (Some e, mark_closed m (insert k (set pre)))"
      using d(1) Cons.prems(3,4) by (intro Cons.IH)
    moreover have "mark_closed m (insert k (insert j (set pre))) = mark_closed m (insert k (set pre))"
      using None by (auto simp: mark_closed_def fun_eq_iff)
    ultimately show ?thesis using None by (simp add: insert_commute)
  next
    case (Some q)
    with Cons.prems have ok: "np_Close env q = None" "closes_ok env m pre"
      by (simp_all add: closes_ok_Cons)
    let ?m = "m(j \<mapsto> invoke CClose q)"
    have "closes_ok env ?m pre" using ok(2) d(2) by (simp add: closes_ok_upd)
    moreover have "?m k = Some p" using d(3) Cons.prems(3) by simp
    ultimately have "Close_loop env ?m (pre @ k # post)
        = (Some e, mark_closed ?m (insert k (set pre)))"
      using d(1) Cons.prems(4) by (intro Cons.IH)
    moreover have "mark_closed ?m (insert k (set pre)) = mark_closed m (insert k (insert j (set pre)))"
      using Some d(2,3) by (auto simp: mark_closed_def fun_eq_iff)
    ultimately show ?thesis using Some ok(1) by (simp add: insert_commute)
  qed
qed

lemma Close_finish_ends:
  "wait_ends env t \<Longrightarrow> Close_finish env t = (Returned None, t\<lparr>closing := False, wg := 0\<rparr>)"
  by (cases "closing t") (auto simp: Close_finish_def wait_ends_def)

lemma Close_finish_blocks:
  "\<not> wait_ends env t \<Longrightarrow> Close_finish env t = (Blocked, t)"
  by (auto simp: Close_finish_def wait_ends_def)

text \<open>When every processor closes and the wait does not end, \<^verbatim>\<open>Close\<close> never returns:
  so it is for the service that \<^verbatim>\<open>NewService\<close> built and \<^verbatim>\<open>Open\<close> started on an empty
  root directory, when a purge task has taken a tick.\<close>

lemma Close_blocks:
  "processors s = Some m \<Longrightarrow> distinct order \<Longrightarrow> closes_ok env m order \<Longrightarrow>
   \<not> wait_ends env (s\<lparr>processors := Some (mark_closed m (set order))\<rparr>) \<Longrightarrow>
   fst (Close env order s) = Blocked"
  by (simp add: Close_def Close_loop_all Close_finish_blocks)

lemma Close_blocks_after_Open:
  "fst (Open env_tick (NewService cfg_on Map.empty) Map.empty) = Returned None \<and>
   fst (Close env_tick [] (fst (snd (Open env_tick (NewService cfg_on Map.empty) Map.empty))))
     = Blocked"
  by (simp add: Open_def MkdirAll_def ReadDir_def NewService_def cfg_on_def env_tick_def
      Close_def Close_finish_def)

text \<open>
  C4, as the code has it. \<^verbatim>\<open>Close\<close> calls \<^verbatim>\<open>Close\<close> on the processors in the order of the
  range and returns the first error at once: the processors after it are not closed, the
  channel is not closed and the wait group not awaited. When every processor closes (or
  the map is nil) it closes the channel and waits for the purge tasks; when that wait
  ends it sets the channel to nil and returns nil. A second \<^verbatim>\<open>Close\<close> after one that
  returned nil succeeds as well, where closing a closed processor returns nil: it
  repeats the calls on the processors, finds no channel and no task, and leaves the
  service as it was but for these calls.
\<close>

theorem Close_returns_first_error:
  assumes "distinct order"
  shows "(processors s = None \<and> wait_ends env s \<longrightarrow>
            Close env order s = (Returned None, s\<lparr>closing := False, wg := 0\<rparr>))
       \<and> (processors s = Some m \<and> closes_ok env m order \<and> wait_ends env s \<longrightarrow>
            Close env order s
              = (Returned None,
                 s\<lparr>processors := Some (mark_closed m (set order)), closing := False, wg := 0\<rparr>))
       \<and> (processors s = Some m \<and> order = pre @ k # post \<and> closes_ok env m pre \<and>
          m k = Some p \<and> np_Close env p = Some e \<longrightarrow>
            Close env order s
              = (Returned (Some e), s\<lparr>processors := Some (mark_closed m (insert k (set pre)))\<rparr>))
       \<and> (processors s = Some m \<and> closes_ok env m order \<and> wait_ends env s \<and>
          distinct order' \<and> closes_ok env (mark_closed m (set order)) order' \<longrightarrow>
            Close env order' (snd (Close env order s))
              = (Returned None,
                 s\<lparr>processors := Some (mark_closed (mark_closed m (set order)) (set order')),
                   closing := False, wg := 0\<rparr>))"
proof -
  have a: "Close env order s = (Returned None, s\<lparr>closing := False, wg := 0\<rparr>)"
    if "processors s = None" "wait_ends env s"
    using that by (simp add: Close_def Close_finish_ends)
  have b: "Close env ks t
      = (Returned None, t\<lparr>processors := Some (mark_closed n (set ks)), closing := False, wg := 0\<rparr>)"
    if "processors t = Some n" "closes_ok env n ks" "distinct ks" "wait_ends env t"
    for t :: Service and n ks
  proof -
    have "wait_ends env (t\<lparr>processors := Some (mark_closed n (set ks))\<rparr>)"
      using that(4) by (simp add: wait_ends_def)
    then show ?thesis
      using that(1,2,3) by (simp add: Close_def Close_loop_all Close_finish_ends)
  qed
  have c: "Close env order s
      = (Returned (Some e), s\<lparr>processors := Some (mark_closed m (insert k (set pre)))\<rparr>)"
    if "processors s = Some m" "order = pre @ k # post" "closes_ok env m pre"
       "m k = Some p" "np_Close env p = Some e"
    using that assms by (simp add: Close_def Close_loop_first_error)
  have d: "Close env order' (snd (Close env order s))
      = (Returned None,
         s\<lparr>processors := Some (mark_closed (mark_closed m (set order)) (set order')),
           closing := False, wg := 0\<rparr>)"
    if "processors s = Some m" "closes_ok env m order" "wait_ends env s" "distinct order'"
       "closes_ok env (mark_closed m (set order)) order'"
  proof -
    let ?t = "s\<lparr>processors := Some (mark_closed m (set order)), closing := False, wg := 0\<rparr>"
    have "Close env order s = (Returned None, ?t)"
      using that(1,2,3) assms by (intro b) simp_all
    moreover have "Close env order' ?t
        = (Returned None, ?t\<lparr>processors := Some (mark_closed (mark_closed m (set order)) (set order')),
             closing := False, wg := 0\<rparr>)"
      using that(4,5) by (intro b) (simp_all add: wait_ends_def)
    ultimately show ?thesis by simp
  qed
  show ?thesis using a b [of s m order] c d assms by blast
qed

text \<open>
  C4 as stated fails where a processor cannot be closed: with the processor of node 1
  failing and visited first, the call returns that error, the processor of node 2 has
  seen no call, the channel is still there and the purge task still counted; and the
  second call does not succeed, it returns the error again. (No history of calls fills
  the map of the service that \<^verbatim>\<open>NewService\<close> builds, so the service is given with its
  two processors.)
\<close>

theorem Close_collects_counterexample:
  "fst (Close env_flaky [1, 2] svc_two) = Returned (Some (ExternalError ''busy'')) \<and>
   lookup (snd (Close env_flaky [1, 2] svc_two)) 2 = Some (NewNodeProcessor 2 ''/var/hh/2'') \<and>
   calls (NewNodeProcessor 2 ''/var/hh/2'') = [] \<and>
   closing (snd (Close env_flaky [1, 2] svc_two)) \<and>
   wg (snd (Close env_flaky [1, 2] svc_two)) = 1 \<and>
   fst (Close env_flaky [1, 2] (snd (Close env_flaky [1, 2] svc_two)))
     = Returned (Some (ExternalError ''busy''))"
  by (simp add: Close_def svc_two_def env_flaky_def NewNodeProcessor_def invoke_def lookup_def)

theorem Close_returns_first_error_witness:
  "distinct [1, 2 :: uint64] \<and> wait_ends env_ok svc_two \<and>
   processors svc_two = Some [1 \<mapsto> NewNodeProcessor 1 ''/var/hh/1'',
                               2 \<mapsto> NewNodeProcessor 2 ''/var/hh/2''] \<and>
   closes_ok env_ok [1 \<mapsto> NewNodeProcessor 1 ''/var/hh/1'',
                     2 \<mapsto> NewNodeProcessor 2 ''/var/hh/2''] [1, 2] \<and>
   fst (Close env_ok [1, 2] svc_two) = Returned None \<and>
   lookup (snd (Close env_ok [1, 2] svc_two)) 2
     = Some (invoke CClose (NewNodeProcessor 2 ''/var/hh/2'')) \<and>
   \<not> closing (snd (Close env_ok [1, 2] svc_two)) \<and>
   wg (snd (Close env_ok [1, 2] svc_two)) = 0 \<and>
   fst (Close env_ok [2, 1] (snd (Close env_ok [1, 2] svc_two))) = Returned None \<and>
   \<not> closing (snd (Close env_ok [2, 1] (snd (Close env_ok [1, 2] svc_two)))) \<and>
   wg (snd (Close env_ok [2, 1] (snd (Close env_ok [1, 2] svc_two)))) = 0 \<and>
   np_Close env_flaky (NewNodeProcessor 1 ''/var/hh/1'') = Some (ExternalError ''busy'') \<and>
   fst (Close env_flaky [1, 2] svc_two) = Returned (Some (ExternalError ''busy'')) \<and>
   wg (snd (Close env_flaky [1, 2] svc_two)) = 1"
proof -
  let ?m = "[1 \<mapsto> NewNodeProcessor 1 ''/var/hh/1'', 2 \<mapsto> NewNodeProcessor 2 ''/var/hh/2'']
    :: uint64 \<rightharpoonup> NodeProcessor"
  have d: "distinct [1, 2 :: uint64]" "distinct [2, 1 :: uint64]" by simp_all
  have c: "wait_ends env_ok svc_two" "wg svc_two = 1"
    by (simp_all add: svc_two_def wait_ends_def env_ok_def)
  have p: "processors svc_two = Some ?m" by (simp add: svc_two_def)
  have ok: "closes_ok env_ok ?m [1, 2]" by (simp add: closes_ok_def env_ok_def)
  have ok': "closes_ok env_ok (mark_closed ?m (set [1, 2])) [2, 1]"
    by (simp add: closes_ok_def env_ok_def mark_closed_def)
  have pre: "closes_ok env_flaky ?m []" by (simp add: closes_ok_def)
  have k: "?m 1 = Some (NewNodeProcessor 1 ''/var/hh/1'')" by simp
  have e: "np_Close env_flaky (NewNodeProcessor 1 ''/var/hh/1'') = Some (ExternalError ''busy'')"
    by (simp add: env_flaky_def NewNodeProcessor_def)
  have o: "[1, 2 :: uint64] = [] @ 1 # [2]" by simp
  note t1 = Close_returns_first_error [OF d(1), of svc_two env_ok ?m "[]" 1 "[2]"
      "NewNodeProcessor 1 ''/var/hh/1''" "ExternalError ''busy''" "[2, 1]"]
  note t2 = Close_returns_first_error [OF d(1), of svc_two env_flaky ?m "[]" 1 "[2]"
      "NewNodeProcessor 1 ''/var/hh/1''" "ExternalError ''busy''" "[2, 1]"]
  from t1 p ok c(1) have a1: "Close env_ok [1, 2] svc_two
      = (Returned None,
         svc_two\<lparr>processors := Some (mark_closed ?m (set [1, 2])), closing := False, wg := 0\<rparr>)"
    by blast
  from t1 p ok c(1) d(2) ok' have a2: "Close env_ok [2, 1] (snd (Close env_ok [1, 2] svc_two))
      = (Returned None,
         svc_two\<lparr>processors := Some (mark_closed (mark_closed ?m (set [1, 2])) (set [2, 1])),
           closing := False, wg := 0\<rparr>)"
    by blast
  from t2 p o pre k e have a3: "Close env_flaky [1, 2] svc_two
      = (Returned (Some (ExternalError ''busy'')),
         svc_two\<lparr>processors := Some (mark_closed ?m (insert 1 (set [])))\<rparr>)"
    by blast
  have f1: "fst (Close env_ok [1, 2] svc_two) = Returned None"
    and f2: "lookup (snd (Close env_ok [1, 2] svc_two)) 2
      = Some (invoke CClose (NewNodeProcessor 2 ''/var/hh/2''))"
    and f3: "\<not> closing (snd (Close env_ok [1, 2] svc_two))"
    and f4: "wg (snd (Close env_ok [1, 2] svc_two)) = 0"
    unfolding a1 by (simp_all add: lookup_def mark_closed_def)
  have f5: "fst (Close env_ok [2, 1] (snd (Close env_ok [1, 2] svc_two))) = Returned None"
    and f5a: "\<not> closing (snd (Close env_ok [2, 1] (snd (Close env_ok [1, 2] svc_two))))"
    and f5b: "wg (snd (Close env_ok [2, 1] (snd (Close env_ok [1, 2] svc_two)))) = 0"
    unfolding a2 by simp_all
  have f6: "fst (Close env_flaky [1, 2] svc_two) = Returned (Some (ExternalError ''busy''))"
    and f7: "wg (snd (Close env_flaky [1, 2] svc_two)) = 1"
    unfolding a3 using c(2) by simp_all
  show ?thesis
    using d(1) c(1) p ok e f1 f2 f3 f4 f5 f5a f5b f6 f7 by blast
qed

subsection \<open>Node directories\<close>

lemma digit_char_in: "n < 10 \<Longrightarrow> digit_char n \<in> set ''0123456789''"
  unfolding digit_char_def by (rule nth_mem) simp

lemma FormatUint_digits: "set (FormatUint n) \<subseteq> set ''0123456789''"
proof (induction n rule: FormatUint.induct)
  case (1 n)
  show ?case
  proof (cases "n < 10")
    case True
    then show ?thesis using digit_char_in [of n] by (subst FormatUint.simps) simp
  next
    case False
    then have "set (FormatUint (n div 10)) \<subseteq> set ''0123456789''" by (rule "1.IH")
    moreover have "digit_char (n mod 10) \<in> set ''0123456789''" by (rule digit_char_in) simp
    ultimately show ?thesis using False by (subst FormatUint.simps) simp
  qed
qed

lemma FormatUint_nonempty: "FormatUint n \<noteq> []"
  by (subst FormatUint.simps) simp

lemma FormatUint_no_sep: "CHR ''/'' \<notin> set (FormatUint n)"
  using FormatUint_digits [of n] by auto

lemma FormatUint_not_dots: "FormatUint n \<noteq> ''.''" "FormatUint n \<noteq> ''..''"
  using FormatUint_digits [of n] by auto

lemma split_sep_nonempty: "split_sep s \<noteq> []"
  by (induction s) (auto split: list.splits)

lemma split_sep_no_sep: "CHR ''/'' \<notin> set s \<Longrightarrow> split_sep s = [s]"
  by (induction s) auto

lemma split_sep_append: "split_sep (a @ CHR ''/'' # b) = split_sep a @ split_sep b"
  by (induction a) (auto split: list.splits simp: split_sep_nonempty)

lemma split_sep_elems: "x \<in> set (split_sep s) \<Longrightarrow> CHR ''/'' \<notin> set x"
  by (induction s arbitrary: x) (auto split: list.splits if_splits)

lemma Clean_step_ok:
  "\<forall>x \<in> set out. elem_ok x \<Longrightarrow> CHR ''/'' \<notin> set c \<Longrightarrow>
   \<forall>x \<in> set (Clean_step rooted out c). elem_ok x"
  by (auto simp: Clean_step_def elem_ok_def dest: in_set_butlastD)

lemma foldl_Clean_step_ok:
  "\<forall>x \<in> set out. elem_ok x \<Longrightarrow> \<forall>c \<in> set cs. CHR ''/'' \<notin> set c \<Longrightarrow>
   \<forall>x \<in> set (foldl (Clean_step rooted) out cs). elem_ok x"
proof (induction cs arbitrary: out)
  case Nil
  then show ?case by simp
next
  case (Cons c cs)
  have "\<forall>x \<in> set (Clean_step rooted out c). elem_ok x"
    using Cons.prems by (intro Clean_step_ok) simp_all
  then show ?case using Cons.prems(2) by (simp add: Cons.IH)
qed

lemma join_sep_snoc: "out \<noteq> [] \<Longrightarrow> join_sep (out @ [x]) = join_sep out @ ''/'' @ x"
  by (induction out rule: join_sep.induct) simp_all

lemma join_sep_ok:
  assumes "out \<noteq> []" and "\<forall>x \<in> set out. elem_ok x"
  shows "join_sep out \<noteq> [] \<and> join_sep out \<noteq> ''.'' \<and> join_sep out \<noteq> ''/''"
proof (cases out)
  case Nil
  then show ?thesis using assms(1) by simp
next
  case (Cons x xs)
  show ?thesis
  proof (cases xs)
    case Nil
    then show ?thesis using Cons assms(2) by (auto simp: elem_ok_def)
  next
    case (Cons y ys)
    have "x \<noteq> []" using \<open>out = x # xs\<close> assms(2) by (simp add: elem_ok_def)
    then have "2 \<le> length (x @ ''/'' @ join_sep (y # ys))"
      by (cases x) simp_all
    then have "2 \<le> length (join_sep out)"
      using Cons \<open>out = x # xs\<close> by simp
    then show ?thesis by auto
  qed
qed

lemma join_sep_snoc_nonempty: "x \<noteq> [] \<Longrightarrow> join_sep (out @ [x]) \<noteq> []"
  by (cases "out = []") (simp_all add: join_sep_snoc)

lemma Clean_plain:
  assumes "x \<noteq> []" "x \<noteq> ''.''" "x \<noteq> ''..''" "CHR ''/'' \<notin> set x"
  shows "Clean x = x"
proof -
  have "\<not> is_rooted x" using assms(1,4) by (cases x) (auto simp: is_rooted_def)
  then show ?thesis
    using assms by (simp add: Clean_def split_sep_no_sep Clean_step_def)
qed

lemma Clean_under:
  assumes "d \<noteq> []" and "x \<noteq> []" "x \<noteq> ''.''" "x \<noteq> ''..''" "CHR ''/'' \<notin> set x"
  shows "Clean (d @ ''/'' @ x) = dir_prefix d @ x"
proof -
  define out where "out = foldl (Clean_step (is_rooted d)) [] (split_sep d)"
  have r: "is_rooted (d @ ''/'' @ x) = is_rooted d"
    using assms(1) by (cases d) (simp_all add: is_rooted_def)
  have sp: "split_sep (d @ ''/'' @ x) = split_sep d @ [x]"
    using assms(5) by (simp add: split_sep_append split_sep_no_sep)
  have fo: "foldl (Clean_step (is_rooted d)) [] (split_sep d @ [x]) = out @ [x]"
    using assms(2,3,4) by (simp add: out_def Clean_step_def)
  have ok: "\<forall>y \<in> set out. elem_ok y"
    unfolding out_def by (rule foldl_Clean_step_ok) (auto dest: split_sep_elems)
  have cd: "Clean d = (let r = (if is_rooted d then ''/'' else []) @ join_sep out
                       in if r = [] then ''.'' else r)"
    by (simp add: Clean_def out_def)
  have cx: "Clean (d @ ''/'' @ x) = (if is_rooted d then ''/'' else []) @ join_sep (out @ [x])"
    using join_sep_snoc_nonempty [OF assms(2), of out] unfolding Clean_def r sp fo
    by (simp add: Let_def)
  show ?thesis
  proof (cases "out = []")
    case True
    then show ?thesis using assms(1) cd cx by (simp add: dir_prefix_def)
  next
    case False
    then have j: "join_sep out \<noteq> [] \<and> join_sep out \<noteq> ''.'' \<and> join_sep out \<noteq> ''/''"
      using ok by (rule join_sep_ok)
    show ?thesis
    proof (cases "is_rooted d")
      case True
      with j have "Clean d = ''/'' @ join_sep out" using cd by simp
      then show ?thesis using assms(1) j cx True False
        by (simp add: dir_prefix_def join_sep_snoc)
    next
      case nr: False
      with j have "Clean d = join_sep out" using cd by simp
      then show ?thesis using assms(1) j cx nr False
        by (simp add: dir_prefix_def join_sep_snoc)
    qed
  qed
qed

lemma Join_dir_elem:
  assumes "x \<noteq> []" "x \<noteq> ''.''" "x \<noteq> ''..''" "CHR ''/'' \<notin> set x"
  shows "Join [d, x] = dir_prefix d @ x"
proof (cases "d = []")
  case True
  then show ?thesis using assms by (simp add: Join_def Clean_plain dir_prefix_def)
next
  case False
  then have "Join [d, x] = Clean (d @ ''/'' @ x)" by (simp add: Join_def)
  then show ?thesis using Clean_under [OF False assms] by simp
qed

lemma pathforNode_eq: "pathforNode s n = dir_prefix (Dir (cfg s)) @ Sprintf_d n"
  unfolding pathforNode_def Sprintf_d_def
  by (rule Join_dir_elem)
     (simp_all add: FormatUint_nonempty FormatUint_not_dots FormatUint_no_sep)

lemma digit_char_zero: "n < 10 \<Longrightarrow> digit_char n = CHR ''0'' \<longleftrightarrow> n = 0"
  by (auto simp: eval_nat_numeral less_Suc_eq digit_char_def)

lemma FormatUint_no_leading_zero: "0 < n \<Longrightarrow> hd (FormatUint n) \<noteq> CHR ''0''"
proof (induction n rule: FormatUint.induct)
  case (1 n)
  show ?case
  proof (cases "n < 10")
    case True
    then show ?thesis using "1.prems" digit_char_zero [of n] by (subst FormatUint.simps) simp
  next
    case False
    then have "0 < n div 10" by simp
    with False have "hd (FormatUint (n div 10)) \<noteq> CHR ''0''" by (intro "1.IH") simp_all
    then show ?thesis using False FormatUint_nonempty [of "n div 10"]
      by (subst FormatUint.simps) simp
  qed
qed

lemma Open_loop_filter:
  "Open_loop env s files = Open_loop env s (filter (\<lambda>name. ParseUint name \<noteq> None) files)"
  by (induction files arbitrary: s) (auto split: option.splits)


lemma digit_val_digit_char: "j < 10 \<Longrightarrow> digit_val (digit_char j) = Some (of_nat j)"
  by (auto simp: eval_nat_numeral less_Suc_eq digit_char_def digit_val_def)

lemma ParseUint_loop_append:
  "ParseUint_loop n (xs @ ys)
     = (case ParseUint_loop n xs of None \<Rightarrow> None | Some n' \<Rightarrow> ParseUint_loop n' ys)"
  by (induction xs arbitrary: n) (auto split: option.splits)

lemma unat_of_nat64: "x < 2 ^ 64 \<Longrightarrow> unat (of_nat x :: uint64) = x"
  by (simp add: unat_of_nat take_bit_nat_eq_self)

lemma ParseUint_loop_digit:
  assumes "q * 10 + r < 2 ^ 64" and "r < 10"
  shows "ParseUint_loop (of_nat q) [digit_char r] = Some (of_nat (q * 10 + r))"
proof -
  have q: "q < 1844674407370955162" using assms by simp
  then have uq: "unat (of_nat q :: uint64) = q" by (simp add: unat_of_nat64)
  have c: "\<not> cutoff64 \<le> (of_nat q :: uint64)"
    using q by (simp add: word_le_nat_alt uq cutoff64_def)
  have e: "(of_nat q :: uint64) * 10 + of_nat r = of_nat (q * 10 + r)" by simp
  have u1: "unat (of_nat (q * 10 + r) :: uint64) = q * 10 + r"
    using assms(1) by (rule unat_of_nat64)
  have e2: "(of_nat q :: uint64) * 10 = of_nat (q * 10)" by simp
  have "q * 10 < 2 ^ 64" using assms(1) by simp
  then have u2: "unat (of_nat (q * 10) :: uint64) = q * 10"
    by (rule unat_of_nat64)
  have w: "\<not> (of_nat q :: uint64) * 10 + of_nat r < of_nat q * 10"
    unfolding e unfolding e2 by (simp only: word_less_nat_alt u1 u2)
  show ?thesis
    by (simp only: ParseUint_loop.simps digit_val_digit_char [OF assms(2)] option.case
        c w w [unfolded e] if_False e)
qed

lemma ParseUint_loop_FormatUint:
  "k < 2 ^ 64 \<Longrightarrow> ParseUint_loop 0 (FormatUint k) = Some (of_nat k)"
proof (induction k rule: FormatUint.induct)
  case (1 k)
  show ?case
  proof (cases "k < 10")
    case True
    have "ParseUint_loop (of_nat 0) [digit_char k] = Some (of_nat (0 * 10 + k))"
      using "1.prems" True by (intro ParseUint_loop_digit) simp_all
    then show ?thesis using True by (subst FormatUint.simps) simp
  next
    case False
    have "k div 10 < 2 ^ 64" using "1.prems" by simp
    with False have ih: "ParseUint_loop 0 (FormatUint (k div 10)) = Some (of_nat (k div 10))"
      by (intro "1.IH") simp_all
    have "ParseUint_loop (of_nat (k div 10)) [digit_char (k mod 10)]
        = Some (of_nat (k div 10 * 10 + k mod 10))"
      using "1.prems" by (intro ParseUint_loop_digit) simp_all
    then show ?thesis using False ih
      by (subst FormatUint.simps) (simp add: ParseUint_loop_append)
  qed
qed

lemma ParseUint_Sprintf_d: "ParseUint (Sprintf_d n) = Some n"
proof -
  have "unat n < 2 ^ 64" using unsigned_less [of n] by simp
  then have "ParseUint_loop 0 (FormatUint (unat n)) = Some (of_nat (unat n))"
    by (rule ParseUint_loop_FormatUint)
  then show ?thesis by (simp add: ParseUint_def Sprintf_d_def FormatUint_nonempty)
qed

lemma Open_listing_filter:
  assumes "fs (Dir (cfg s)) = Some names"
  shows "fst (Open env s (fs(Dir (cfg s) \<mapsto> filter (\<lambda>name. ParseUint name \<noteq> None) names)))
           = fst (Open env s fs)
       \<and> fst (snd (Open env s (fs(Dir (cfg s) \<mapsto> filter (\<lambda>name. ParseUint name \<noteq> None) names))))
           = fst (snd (Open env s fs))"
proof -
  have "Open_loop env t names = Open_loop env t (filter (\<lambda>name. ParseUint name \<noteq> None) names)"
    for t by (rule Open_loop_filter)
  then show ?thesis
    using assms
    by (simp add: Open_def MkdirAll_def ReadDir_def split: option.splits prod.splits outcome.splits)
qed

text \<open>
  C9, as the code has it. The directory of node \<open>n\<close> is the cleaned root directory, a
  slash, and the decimal rendering of \<open>n\<close> that \<^verbatim>\<open>%d\<close> gives: no padding, so no leading
  zero unless \<open>n = 0\<close>; \<^verbatim>\<open>ParseUint\<close> reads the rendering back as \<open>n\<close>. \<^verbatim>\<open>Open\<close>
  ignores the names of the listing that \<^verbatim>\<open>ParseUint\<close> rejects: its outcome and the service
  it leaves are those of the listing without them.
\<close>

theorem pathforNode_plain_decimal:
  "pathforNode s n = dir_prefix (Dir (cfg s)) @ Sprintf_d n
   \<and> (n \<noteq> 0 \<longrightarrow> hd (Sprintf_d n) \<noteq> CHR ''0'')
   \<and> ParseUint (Sprintf_d n) = Some n
   \<and> (fs (Dir (cfg s)) = Some names \<longrightarrow>
        fst (Open env s (fs(Dir (cfg s) \<mapsto> filter (\<lambda>name. ParseUint name \<noteq> None) names)))
          = fst (Open env s fs)
      \<and> fst (snd (Open env s (fs(Dir (cfg s) \<mapsto> filter (\<lambda>name. ParseUint name \<noteq> None) names))))
          = fst (snd (Open env s fs)))"
proof -
  have "0 < unat n" if "n \<noteq> 0" using that by (simp add: unat_gt_0)
  then have "n \<noteq> 0 \<longrightarrow> hd (Sprintf_d n) \<noteq> CHR ''0''"
    by (simp add: Sprintf_d_def FormatUint_no_leading_zero)
  then show ?thesis
    using pathforNode_eq [of s n] ParseUint_Sprintf_d [of n] Open_listing_filter [of fs s names env]
    by blast
qed

lemma Sprintf_d_7: "Sprintf_d 7 = ''7''"
  by (simp add: Sprintf_d_def FormatUint.simps digit_char_def)

lemma dir_prefix_var_hh: "dir_prefix ''/var/hh'' = ''/var/hh/''"
  by (simp add: dir_prefix_def Clean_def Clean_step_def is_rooted_def)

theorem pathforNode_plain_decimal_witness:
  "pathforNode svc_two 7 = ''/var/hh/7'' \<and> (7 :: uint64) \<noteq> 0 \<and>
   hd (Sprintf_d 7) \<noteq> CHR ''0'' \<and> ParseUint ''7'' = Some 7 \<and>
   ParseUint ''lost+found'' = None \<and>
   fst (Open env_ok svc_two [''/var/hh'' \<mapsto> [''7'']])
     = fst (Open env_ok svc_two [''/var/hh'' \<mapsto> [''lost+found'', ''7'']])"
proof -
  have d: "Dir (cfg svc_two) = ''/var/hh''" by (simp add: svc_two_def cfg_on_def)
  have p7: "ParseUint ''7'' = Some 7" by (simp add: ParseUint_def digit_val_def cutoff64_def)
  have pl: "ParseUint ''lost+found'' = None" by (simp add: ParseUint_def digit_val_def)
  have l: "[''/var/hh'' \<mapsto> [''lost+found'', ''7'']] (Dir (cfg svc_two)) = Some [''lost+found'', ''7'']"
    by (simp add: d)
  show ?thesis
    using pathforNode_plain_decimal [of svc_two 7 "[''/var/hh'' \<mapsto> [''lost+found'', ''7'']]"
        "[''lost+found'', ''7'']" env_ok] l
    by (simp add: d p7 pl Sprintf_d_7 dir_prefix_var_hh)
qed

lemma FormatUint_7: "FormatUint 7 = ''7''"
  by (simp add: FormatUint.simps digit_char_def)

lemma zero_padded_7: "zero_padded 20 7 = ''00000000000000000007''" "zero_padded 2 7 = ''07''"
proof -
  have r19: "replicate 19 (CHR ''0'') = ''0000000000000000000''"
    by (simp add: eval_nat_numeral)
  show "zero_padded 20 7 = ''00000000000000000007''"
    by (simp add: zero_padded_def FormatUint_7 r19)
  show "zero_padded 2 7 = ''07''"
    by (simp add: zero_padded_def FormatUint_7)
qed

text \<open>
  C9 as stated fails: the path element of node 7 is \<^verbatim>\<open>7\<close> and that of node 42 is
  \<^verbatim>\<open>42\<close>, of different lengths and without a zero in front; padded to the 20 digits of
  the largest ID, or to 2, the element of node 7 would be another string.
\<close>

theorem pathforNode_zero_padded_counterexample:
  "pathforNode svc_two 7 = ''/var/hh/7'' \<and> pathforNode svc_two 42 = ''/var/hh/42'' \<and>
   zero_padded 20 7 = ''00000000000000000007'' \<and>
   Sprintf_d 7 \<noteq> zero_padded 20 7 \<and> Sprintf_d 7 \<noteq> zero_padded 2 7"
  by (simp add: pathforNode_def svc_two_def cfg_on_def Join_def Clean_def Clean_step_def
      is_rooted_def Sprintf_d_def FormatUint.simps digit_char_def zero_padded_7)

subsection \<open>Processors made by Open and by WriteShard\<close>

lemma pathforNode_processors [simp]:
  "pathforNode (s\<lparr>processors := ps\<rparr>) n = pathforNode s n"
  by (simp add: pathforNode_def)

text \<open>On a map that was made, with every processor opening, the loop of \<^verbatim>\<open>Open\<close> stores
  one opened processor for every name that parses and nothing for the others.\<close>

lemma Open_loop_made_map:
  assumes "processors s = Some m" and "\<forall>p. np_Open env p = None"
  shows "fst (Open_loop env s files) = Returned None
       \<and> (\<forall>n. lookup (snd (Open_loop env s files)) n
              = (if \<exists>name \<in> set files. ParseUint name = Some n
                 then Some (invoke COpen (NewNodeProcessor n (pathforNode s n)))
                 else m n))"
  using assms(1)
proof (induction files arbitrary: s m)
  case Nil
  then show ?case by (simp add: lookup_def)
next
  case (Cons name files)
  show ?case
  proof (cases "ParseUint name")
    case None
    then show ?thesis using Cons.IH [OF Cons.prems] by simp
  next
    case (Some k)
    let ?s = "s\<lparr>processors := Some (m(k \<mapsto> invoke COpen (NewNodeProcessor k (pathforNode s k))))\<rparr>"
    have "processors ?s = Some (m(k \<mapsto> invoke COpen (NewNodeProcessor k (pathforNode s k))))"
      by simp
    from Cons.IH [OF this] show ?thesis
      using Some Cons.prems assms(2) by auto
  qed
qed


text \<open>Whatever the environment, a processor that \<^verbatim>\<open>WriteShard\<close> has just made has seen
  the write and no \<^verbatim>\<open>Open\<close>; it is stored only where \<^verbatim>\<open>Open\<close> on nil returned nil.\<close>

lemma lookup_statMap [simp]: "lookup (s\<lparr>statMap := x\<rparr>) k = lookup s k"
  by (simp add: lookup_def)

lemma WriteShard_never_opens:
  assumes "Enabled (cfg s)" and "lookup s ownerID = None"
    and "lookup (snd (WriteShard env s shardID ownerID points)) ownerID = Some p"
  shows "calls p = [CWriteShard shardID points] \<and> np_Open_nil env = Returned None"
  using assms
  by (auto simp: WriteShard_def Let_def delegate_def lookup_def NewNodeProcessor_def invoke_def
      split: option.splits outcome.splits)

text \<open>
  C3 at a failing input: the service that \<^verbatim>\<open>NewService\<close> builds is opened on a root
  directory with the one child \<^verbatim>\<open>1\<close>. The processor is built and opened, and the
  assignment to the nil map panics: no processor is recorded and no purge task started.
\<close>

theorem Open_numeric_child_panics:
  "fst (Open env_ok (NewService cfg_on Map.empty) [''/var/hh'' \<mapsto> [''1'']])
     = Panicked NilMapAssignment \<and>
   entries (fst (snd (Open env_ok (NewService cfg_on Map.empty) [''/var/hh'' \<mapsto> [''1'']]))) = {} \<and>
   wg (fst (snd (Open env_ok (NewService cfg_on Map.empty) [''/var/hh'' \<mapsto> [''1'']]))) = 0"
  by (simp add: Open_def MkdirAll_def ReadDir_def NewService_def cfg_on_def env_ok_def
      ParseUint_def digit_val_def cutoff64_def entries_def)

text \<open>
  C1 at failing inputs: a write for node 99, which has no processor. The call of
  \<^verbatim>\<open>Open\<close> goes to the nil \<^verbatim>\<open>processor\<close>: where that dereferences nil the write panics;
  where it returns nil, the assignment panics on the nil map of \<^verbatim>\<open>NewService\<close>, and on a
  map that was made the new processor is stored and written to with no call of its
  \<^verbatim>\<open>Open\<close>.
\<close>

theorem WriteShard_new_owner_not_opened:
  "fst (WriteShard env_ok (NewService cfg_on Map.empty) 1 99 [Point ''p'']) = Panicked NilDereference \<and>
   lookup (snd (WriteShard env_ok (NewService cfg_on Map.empty) 1 99 [Point ''p''])) 99 = None \<and>
   fst (WriteShard env_flaky (NewService cfg_on Map.empty) 1 99 [Point ''p''])
     = Panicked NilMapAssignment \<and>
   fst (WriteShard env_flaky svc_two 1 99 [Point ''p'']) = Returned None \<and>
   lookup (snd (WriteShard env_flaky svc_two 1 99 [Point ''p''])) 99
     = Some \<lparr>nodeID = 99, dir = ''/var/hh/99'', calls = [CWriteShard 1 [Point ''p'']]\<rparr>"
  by (simp add: WriteShard_def Let_def lookup_def delegate_def NewService_def svc_two_def
      cfg_on_def env_ok_def env_flaky_def NewNodeProcessor_def invoke_def
      pathforNode_def Join_def Clean_def Clean_step_def
      is_rooted_def Sprintf_d_def FormatUint.simps digit_char_def)

end
